theory Spec2Isabelle
  imports Main
begin

section \<open>Chunked two-pass watershed: data model\<close>

text \<open>
  The two notebooks share five helper functions written in the repository
  (\<open>grab_overlap\<close>, \<open>mask_overlap\<close>, the two \<open>build_full_markers\<close>,
  \<open>remove_label\<close>, \<open>compose\<close>) and two pipelines that glue them to library
  primitives (chunking, halo exchange, trimming, blockwise application and the watershed).
  Arrays are N-dimensional: a shape and a cell function on index vectors; only cells whose
  index is within the shape carry meaning.  Labels are natural numbers (the markers come
  from connected-component labelling, \<open>0\<close> is "unlabelled"); elevations are any linearly
  ordered type, since the flood only compares them.  Integers are unbounded: the
  wrap-around of \<open>ws_markers.max() + 1\<close> at the top of a machine integer is not modelled,
  nor are not-a-number elevations.  What a function does by raising is a value of type
  \<open>outcome\<close>; \<open>result\<close> reads the value of an outcome that returned.
\<close>

datatype error = EmptyMarkers | InvalidGeometry | ShapeMismatch | IndexError

datatype 'a outcome = is_Returns: Returns (result: 'a) | Raises error | Diverges

definition obind :: "'a outcome \<Rightarrow> ('a \<Rightarrow> 'b outcome) \<Rightarrow> 'b outcome" where
  "obind m f = (case m of Returns x \<Rightarrow> f x | Raises e \<Rightarrow> Raises e | Diverges \<Rightarrow> Diverges)"

record 'a ndarray =
  shape :: "nat list"
  cell :: "nat list \<Rightarrow> 'a"

definition in_bounds :: "nat list \<Rightarrow> nat list \<Rightarrow> bool" where
  "in_bounds shp idx = list_all2 (<) idx shp"

text \<open>All index vectors of a shape, in row-major (raveled) order.\<close>

fun indices :: "nat list \<Rightarrow> nat list list" where
  "indices [] = [[]]"
| "indices (n # ns) = concat (map (\<lambda>i. map ((#) i) (indices ns)) [0..<n])"

text \<open>A chunked array: per axis the list of chunk extents, and one block per block index.\<close>

record 'a darray =
  chunks :: "nat list list"
  block :: "nat list \<Rightarrow> 'a ndarray"

definition block_indices :: "nat list list \<Rightarrow> nat list list" where
  "block_indices chs = indices (map length chs)"

definition offset :: "nat list \<Rightarrow> nat \<Rightarrow> nat" where
  "offset cs k = sum_list (take k cs)"

definition block_shape :: "nat list list \<Rightarrow> nat list \<Rightarrow> nat list" where
  "block_shape chs b = map2 (\<lambda>cs k. cs ! k) chs b"

text \<open>Every block has the shape its chunk extents announce.\<close>

definition wf_darray :: "'a darray \<Rightarrow> bool" where
  "wf_darray x =
     (\<forall>b\<in>set (block_indices (chunks x)). shape (block x b) = block_shape (chunks x) b)"

definition block_offset :: "nat list list \<Rightarrow> nat list \<Rightarrow> nat list" where
  "block_offset chs b = map2 offset chs b"

text \<open>The block number and the position inside that block of a global coordinate.\<close>

fun locate :: "nat list \<Rightarrow> nat \<Rightarrow> nat \<times> nat" where
  "locate [] g = (0, g)"
| "locate (c # cs) g =
     (if g < c then (0, g) else (case locate cs (g - c) of (k, j) \<Rightarrow> (Suc k, j)))"

definition gread :: "'a darray \<Rightarrow> nat list \<Rightarrow> 'a" where
  "gread x g = (let loc = map2 locate (chunks x) g
                in cell (block x (map fst loc)) (map snd loc))"


definition values_of :: "'a ndarray \<Rightarrow> 'a list" where
  "values_of a = map (cell a) (indices (shape a))"

section \<open>Helper functions of the notebooks\<close>

text \<open>
  \<open>r[:depth]\<close> and \<open>r[-depth:]\<close> for \<open>r = np.array(range(0, n))\<close>.  Python reads
  \<open>r[-0:]\<close> as the whole of \<open>r\<close>.
\<close>

definition py_head :: "nat \<Rightarrow> nat \<Rightarrow> nat list" where
  "py_head n d = take d [0..<n]"

definition py_tail :: "nat \<Rightarrow> nat \<Rightarrow> nat list" where
  "py_tail n d = (if d = 0 then [0..<n] else drop (n - d) [0..<n])"

definition zeros_like :: "'a ndarray \<Rightarrow> nat ndarray" where
  "zeros_like chunk = \<lparr>shape = shape chunk, cell = \<lambda>_. 0\<rparr>"

text \<open>
  One turn of the loop \<open>for i in range(0, chunk.ndim)\<close>: the index on axis \<open>i\<close> is the
  pair \<open>(r[:depth], r[-depth:])\<close>, which numpy reads as a two-row index array; rows of
  different lengths (depth 0 on a non-empty axis) are rejected.  \<open>src\<close> gives the value
  written to a selected cell.  (Axes of extent 0 do not arise under the geometry
  invariant and get no treatment of their own.)
\<close>

definition overlap_axis ::
  "nat \<Rightarrow> (nat list \<Rightarrow> nat) \<Rightarrow> nat \<Rightarrow> nat ndarray \<Rightarrow> nat ndarray outcome" where
  "overlap_axis depth src i ov =
     (let n = shape ov ! i; sel = py_head n depth @ py_tail n depth
      in if length (py_head n depth) \<noteq> length (py_tail n depth) then Raises IndexError
         else Returns (ov\<lparr>cell := \<lambda>idx. if idx ! i \<in> set sel then src idx else cell ov idx\<rparr>))"

fun overlap_loop ::
  "nat \<Rightarrow> (nat list \<Rightarrow> nat) \<Rightarrow> nat list \<Rightarrow> nat ndarray \<Rightarrow> nat ndarray outcome" where
  "overlap_loop depth src [] ov = Returns ov"
| "overlap_loop depth src (i # is) ov =
     obind (overlap_axis depth src i ov) (overlap_loop depth src is)"


definition mask_overlap :: "nat ndarray \<Rightarrow> nat \<Rightarrow> nat \<Rightarrow> nat ndarray outcome" where
  "mask_overlap chunk depth label =
     overlap_loop depth (\<lambda>_. label) [0..<length (shape chunk)] (zeros_like chunk)"

text \<open>
  \<open>markers[labels > 0] = labels[labels > 0]\<close>: a boolean index must have the shape of
  the array it indexes.
\<close>

definition put_positive :: "nat ndarray \<Rightarrow> nat ndarray \<Rightarrow> nat ndarray outcome" where
  "put_positive markers labels =
     (if shape labels \<noteq> shape markers then Raises IndexError
      else Returns (markers\<lparr>cell := \<lambda>idx. if cell labels idx > 0 then cell labels idx
                                          else cell markers idx\<rparr>))"

text \<open>
  The halo ring of a padded chunk: the cells within \<open>depth\<close> of a face, which is what
  the loop above selects when the depth is positive.
\<close>

definition in_ring :: "nat list \<Rightarrow> nat \<Rightarrow> nat list \<Rightarrow> bool" where
  "in_ring shp depth p = (\<exists>i<length shp. p ! i < depth \<or> shp ! i - depth \<le> p ! i)"


text \<open>\<open>build_full_markers(labels, depth, label)\<close> of the boundary-basin notebook.\<close>

definition build_full_markers_v2 :: "nat ndarray \<Rightarrow> nat \<Rightarrow> nat \<Rightarrow> nat ndarray outcome" where
  "build_full_markers_v2 labels depth label =
     obind (mask_overlap labels depth label) (\<lambda>markers. put_positive markers labels)"



section \<open>Library primitives (not part of the repository)\<close>

subsection \<open>Partition into chunks\<close>

text \<open>
  Modelled from the spec: the chunk extents along one axis of extent \<open>n\<close> for chunk
  length \<open>c\<close> (GridGeometry, section 4.1; \<open>da.from_array\<close> is library code, not in
  the repository).  Chunks tile the axis without gaps; a ragged final chunk is allowed.
\<close>

definition axis_chunks :: "nat \<Rightarrow> nat \<Rightarrow> nat list" where
  "axis_chunks n c = replicate (n div c) c @ (if n mod c = 0 then [] else [n mod c])"

text \<open>
  Modelled from the spec: \<open>da.from_array(a, chunks=cshape)\<close>, the partition of the
  domain into rectangular chunks, each owning its slice of the array (GridGeometry,
  sections 3 and 4.1); library code, not in the repository.
\<close>

definition from_array :: "'a ndarray \<Rightarrow> nat list \<Rightarrow> 'a darray outcome" where
  "from_array a cshape =
     (if length cshape \<noteq> length (shape a) \<or> 0 \<in> set cshape then Raises InvalidGeometry
      else let chs = map2 axis_chunks (shape a) cshape
           in Returns \<lparr>chunks = chs,
                block = \<lambda>b. \<lparr>shape = block_shape chs b,
                              cell = \<lambda>j. cell a (map2 (+) (block_offset chs b) j)\<rparr>\<rparr>)"

subsection \<open>Halo exchange and trimming\<close>

text \<open>
  Modelled from the spec: the boundary policies of the exchange (HaloExchange, section
  4.2): \<open>Nearest\<close> replicates the nearest interior value at a true domain edge,
  \<open>Constant v\<close> fills the domain-edge halo with \<open>v\<close>.
\<close>

datatype 'a boundary = Nearest | Constant 'a

text \<open>
  Modelled from the spec: the global coordinate, on one axis, of position \<open>j\<close> of padded
  chunk \<open>k\<close>; the nearest coordinate inside an axis of extent \<open>n\<close>; and whether a
  coordinate is inside it.
\<close>

definition halo_coord :: "nat \<Rightarrow> nat list \<Rightarrow> nat \<Rightarrow> nat \<Rightarrow> int" where
  "halo_coord d cs k j = int (offset cs k) + int j - int d"

definition clamp :: "nat \<Rightarrow> int \<Rightarrow> nat" where
  "clamp n g = (if g < 0 then 0 else if int n \<le> g then n - 1 else nat g)"

definition inside :: "nat \<Rightarrow> int \<Rightarrow> bool" where
  "inside n g = (0 \<le> g \<and> g < int n)"

text \<open>
  Modelled from the spec: the global position of cell \<open>j\<close> of padded chunk \<open>b\<close>
  (outside the domain for a halo cell at a domain edge), and the domain cell nearest to
  it.
\<close>

definition halo_global :: "nat list list \<Rightarrow> nat \<Rightarrow> nat list \<Rightarrow> nat list \<Rightarrow> int list" where
  "halo_global chs d b j = map2 (\<lambda>(cs, k) j. halo_coord d cs k j) (zip chs b) j"

definition nearest_global :: "nat list list \<Rightarrow> nat \<Rightarrow> nat list \<Rightarrow> nat list \<Rightarrow> nat list" where
  "nearest_global chs d b j = map2 clamp (map sum_list chs) (halo_global chs d b j)"

text \<open>
  Modelled from the spec: the value of a cell of a padded chunk (section 4.2).  A cell
  whose global position is inside the domain is an exact copy of the cell there, which
  belongs to the chunk itself or to the logically adjacent one; a cell beyond a domain
  edge is filled by the boundary policy.
\<close>

definition halo_cell :: "'a darray \<Rightarrow> nat \<Rightarrow> 'a boundary \<Rightarrow> nat list \<Rightarrow> nat list \<Rightarrow> 'a" where
  "halo_cell x d bnd b j =
     (let g = halo_global (chunks x) d b j
      in if list_all2 inside (map sum_list (chunks x)) g then gread x (map nat g)
         else (case bnd of
                 Nearest \<Rightarrow> gread x (nearest_global (chunks x) d b j)
               | Constant v \<Rightarrow> v))"

text \<open>
  Modelled from the spec: the geometry invariant (sections 3 and 4.1), the depth is at
  most half of every chunk extent.
\<close>

definition geometry_ok :: "nat list list \<Rightarrow> nat \<Rightarrow> bool" where
  "geometry_ok chs d = (\<forall>cs\<in>set chs. \<forall>c\<in>set cs. 2 * d \<le> c)"

text \<open>
  Modelled from the spec: \<open>exchange(chunked_array, depth, boundary_policy)\<close>
  (\<open>da.overlap.overlap\<close>, library code, not in the repository).  Every chunk grows by
  \<open>depth\<close> cells on each face; the exchange fails with \<open>InvalidGeometry\<close> when the
  depth exceeds half of some chunk extent.
\<close>

definition overlap :: "'a darray \<Rightarrow> nat \<Rightarrow> 'a boundary \<Rightarrow> 'a darray outcome" where
  "overlap x d bnd =
     (if \<not> geometry_ok (chunks x) d then Raises InvalidGeometry
      else Returns \<lparr>chunks = map (map (\<lambda>c. c + 2 * d)) (chunks x),
                    block = \<lambda>b. \<lparr>shape = map (\<lambda>n. n + 2 * d) (shape (block x b)),
                                  cell = halo_cell x d bnd b\<rparr>\<rparr>)"

text \<open>
  Modelled from the spec: \<open>trim(array, depth)\<close> (\<open>da.overlap.trim_overlap\<close>, library
  code, not in the repository) strips the halo ring of every chunk symmetrically
  (section 4.6).
\<close>

definition trim_overlap :: "'a darray \<Rightarrow> nat \<Rightarrow> 'a darray" where
  "trim_overlap x d =
     \<lparr>chunks = map (map (\<lambda>c. c - 2 * d)) (chunks x),
      block = \<lambda>b. \<lparr>shape = map (\<lambda>n. n - 2 * d) (shape (block x b)),
                    cell = \<lambda>j. cell (block x b) (map (\<lambda>k. k + d) j)\<rparr>\<rparr>"

subsection \<open>Blockwise application\<close>

text \<open>
  Modelled from the spec: the chunk dispatch interface of section 6, "apply a pure
  function to one chunk's data and halo and receive a result chunk" (\<open>map_blocks\<close>,
  library code, not in the repository).  The tasks, one per block, are executed one after
  the other in the order of a schedule; each stores its result chunk under its block
  index, and a task that fails ends the run.
\<close>

fun run_tasks ::
  "(nat list \<Rightarrow> 'b outcome) \<Rightarrow> nat list list \<Rightarrow> (nat list \<rightharpoonup> 'b) \<Rightarrow> (nat list \<rightharpoonup> 'b) outcome" where
  "run_tasks task [] store = Returns store"
| "run_tasks task (b # bs) store =
     (case task b of
        Returns r \<Rightarrow> run_tasks task bs (store(b \<mapsto> r))
      | Raises e \<Rightarrow> Raises e
      | Diverges \<Rightarrow> Diverges)"

text \<open>
  Modelled from the spec: a blockwise stage, the tasks run in the order \<open>sched\<close> and the
  result chunks gathered into a chunked array with chunk extents \<open>chs\<close>.
\<close>

definition dispatch ::
  "nat list list \<Rightarrow> nat list list \<Rightarrow> (nat list \<Rightarrow> 'b ndarray outcome) \<Rightarrow> 'b darray outcome" where
  "dispatch sched chs task =
     obind (run_tasks task sched Map.empty)
       (\<lambda>store. Returns \<lparr>chunks = chs, block = \<lambda>b. the (store b)\<rparr>)"

type_synonym schedule = "nat list list \<Rightarrow> nat list list"

text \<open>
  Modelled from the spec: \<open>x.map_blocks(f)\<close>, \<open>x.map_blocks(f, y)\<close> and
  \<open>x.map_blocks(f, y, z)\<close>; the arrays must be chunked alike (section 7: a shape
  mismatch is fatal, never silently broadcast).
\<close>

definition map_blocks ::
  "schedule \<Rightarrow> ('a ndarray \<Rightarrow> 'b ndarray outcome) \<Rightarrow> 'a darray \<Rightarrow> 'b darray outcome" where
  "map_blocks sched f x =
     dispatch (sched (block_indices (chunks x))) (chunks x) (\<lambda>b. f (block x b))"



subsection \<open>The local watershed\<close>

text \<open>
  Modelled from the spec: the state of the priority-flood watershed of section 4.3
  (\<open>skimage.morphology.watershed\<close> is library code, not in the repository).  The
  frontier is a priority queue keyed by (elevation, insertion order), kept here as a list
  sorted by that key; \<open>clock\<close> counts the insertions.
\<close>

record 'e qitem =
  prio :: 'e
  age :: nat
  pos :: "nat list"

record 'e flood_state =
  labels :: "nat list \<Rightarrow> nat"
  queue :: "'e qitem list"
  clock :: nat

text \<open>
  Modelled from the spec: insertion into the queue; lower elevation first, and among
  equal elevations the first inserted first.
\<close>

fun enqueue :: "('e::linorder) qitem \<Rightarrow> 'e qitem list \<Rightarrow> 'e qitem list" where
  "enqueue x [] = [x]"
| "enqueue x (y # ys) =
     (if prio x < prio y \<or> (prio x = prio y \<and> age x < age y) then x # y # ys
      else y # enqueue x ys)"










section \<open>The two pipelines\<close>

text \<open>
  Each variable of the notebooks' pipeline cells is one definition, built from the
  definitions of the variables it reads.  The notebooks fix \<open>depth = 1\<close> and the chunk
  shape (\<open>[100, 100]\<close> and \<open>[400, 400]\<close> on a \<open>200 \<times> 200\<close> image); both are parameters
  here, as is the schedule of each blockwise stage.
\<close>

subsection \<open>Direct sharing of the first-pass labels\<close>








subsection \<open>Sharing through the boundary basin\<close>

text \<open>
  \<open>ws_markers.max()\<close> of a label array, and \<open>boundary_label = ws_markers.max() + 1\<close>.
  (numpy rejects the maximum of an array without cells; such a domain has no cell to
  speak of, and the maximum is taken as \<open>0\<close>.)
\<close>

definition amax :: "nat ndarray \<Rightarrow> nat" where
  "amax a = fold max (values_of a) 0"

definition boundary_label :: "nat ndarray \<Rightarrow> nat" where
  "boundary_label ws_markers = amax ws_markers + 1"


definition ws_markers_op_v2 ::
  "(nat \<Rightarrow> schedule) \<Rightarrow> nat ndarray \<Rightarrow> nat list \<Rightarrow> nat \<Rightarrow> nat darray outcome" where
  "ws_markers_op_v2 sched ws_markers cshape depth =
     obind (from_array ws_markers cshape) (\<lambda>ws_markers_da.
     obind (overlap ws_markers_da depth (Constant (boundary_label ws_markers))) (\<lambda>ex.
     map_blocks (sched 0)
       (\<lambda>x. build_full_markers_v2 x depth (boundary_label ws_markers)) ex))"






subsection \<open>Schedules\<close>

text \<open>
  The canonical schedule runs the blocks of every stage in row-major order; a schedule is
  fair when every stage runs exactly the blocks it is given, in any order.
\<close>

definition in_order :: "nat \<Rightarrow> schedule" where
  "in_order stage bs = bs"

definition fair :: "(nat \<Rightarrow> schedule) \<Rightarrow> bool" where
  "fair sched = (\<forall>stage bs. set (sched stage bs) = set bs)"


subsection \<open>The plain watershed\<close>


subsection \<open>Concrete grids\<close>

text \<open>A two-dimensional array given by its rows (\<open>np.array([[...], ...])\<close>).\<close>

definition array2 :: "'a list list \<Rightarrow> 'a ndarray" where
  "array2 rows = \<lparr>shape = [length rows, length (hd rows)],
                  cell = \<lambda>idx. rows ! (idx ! 0) ! (idx ! 1)\<rparr>"


definition seeds_a :: "nat ndarray" where
  "seeds_a = array2 [[2, 0, 0, 3], [0, 0, 0, 1]]"






definition seeds_b :: "nat ndarray" where
  "seeds_b = array2 [[0, 0, 5, 0], [0, 0, 0, 0]]"


subsection \<open>Reachability below the end points\<close>




section \<open>The per-chunk helpers on a store of array objects\<close>

text \<open>
  \<open>remove_label\<close> and \<open>compose\<close> once more, now with the arrays as objects: a store
  maps addresses to arrays (label arrays and boolean arrays apart), arguments are
  addresses, \<open>.copy()\<close> and the temporaries of an expression allocate at the next free
  address, and an indexed assignment overwrites the array at its target's address.
\<close>

record store =
  labels_at :: "nat \<rightharpoonup> nat ndarray"
  masks_at :: "nat \<rightharpoonup> bool ndarray"
  next_addr :: nat











section \<open>Invariants of the flood\<close>



section \<open>Basic facts\<close>

lemma obind_simps [simp]:
  "obind (Returns x) f = f x" "obind (Raises e) f = Raises e" "obind Diverges f = Diverges"
  by (simp_all add: obind_def)

lemma obind_Returns: "obind m f = Returns y \<longleftrightarrow> (\<exists>x. m = Returns x \<and> f x = Returns y)"
  by (cases m) simp_all

lemma in_bounds_nth:
  "in_bounds shp idx \<longleftrightarrow> length idx = length shp \<and> (\<forall>i<length shp. idx ! i < shp ! i)"
  by (auto simp: in_bounds_def list_all2_conv_all_nth)

lemma in_bounds_Nil [simp]: "in_bounds [] idx \<longleftrightarrow> idx = []"
  by (simp add: in_bounds_def)

lemma in_bounds_Cons:
  "in_bounds (n # ns) idx \<longleftrightarrow> (\<exists>i is. idx = i # is \<and> i < n \<and> in_bounds ns is)"
  by (cases idx) (auto simp: in_bounds_def)

lemma set_indices: "set (indices shp) = {idx. in_bounds shp idx}"
proof (induction shp)
  case Nil
  show ?case by auto
next
  case (Cons n ns)
  show ?case
    by (auto simp: in_bounds_Cons Cons)
qed

lemma locate_bounds:
  "g < sum_list cs \<Longrightarrow> fst (locate cs g) < length cs \<and> snd (locate cs g) < cs ! fst (locate cs g)
     \<and> offset cs (fst (locate cs g)) + snd (locate cs g) = g"
proof (induction cs arbitrary: g)
  case Nil
  then show ?case by simp
next
  case (Cons c cs)
  show ?case
  proof (cases "g < c")
    case True
    then show ?thesis by (simp add: offset_def)
  next
    case False
    with Cons.prems have "g - c < sum_list cs" by simp
    from Cons.IH[OF this] False show ?thesis
      by (auto simp: offset_def split: prod.splits)
  qed
qed

lemma locate_offset:
  "k < length cs \<Longrightarrow> j < cs ! k \<Longrightarrow> locate cs (offset cs k + j) = (k, j)"
proof (induction cs arbitrary: k)
  case Nil
  then show ?case by simp
next
  case (Cons c cs)
  show ?case
  proof (cases k)
    case 0
    with Cons.prems show ?thesis by (simp add: offset_def)
  next
    case (Suc k')
    with Cons.prems have "locate cs (offset cs k' + j) = (k', j)"
      by (intro Cons.IH) simp_all
    with Suc show ?thesis by (simp add: offset_def)
  qed
qed

lemma offset_less_sum:
  "k < length cs \<Longrightarrow> j < cs ! k \<Longrightarrow> offset cs k + j < sum_list cs"
proof (induction cs arbitrary: k)
  case Nil
  then show ?case by simp
next
  case (Cons c cs)
  show ?case
  proof (cases k)
    case 0
    with Cons.prems show ?thesis by (simp add: offset_def)
  next
    case (Suc k')
    with Cons.prems have "offset cs k' + j < sum_list cs"
      by (intro Cons.IH) simp_all
    with Suc show ?thesis by (simp add: offset_def)
  qed
qed

lemma gread_at:
  assumes b: "in_bounds (map length chs) b" and j: "in_bounds (block_shape chs b) j"
    and chs: "chunks x = chs"
  shows "gread x (map2 (+) (block_offset chs b) j) = cell (block x b) j"
proof -
  let ?g = "map2 (+) (block_offset chs b) j"
  have lb: "length b = length chs" and bi: "\<And>i. i < length chs \<Longrightarrow> b ! i < length (chs ! i)"
    using b by (auto simp: in_bounds_nth)
  have lj: "length j = length chs" and ji: "\<And>i. i < length chs \<Longrightarrow> j ! i < chs ! i ! (b ! i)"
    using j lb by (auto simp: in_bounds_nth block_shape_def)
  have loc: "map2 locate chs ?g = zip b j"
  proof (rule nth_equalityI)
    show "length (map2 locate chs ?g) = length (zip b j)"
      by (simp add: lb lj block_offset_def)
  next
    fix i assume "i < length (map2 locate chs ?g)"
    then have i: "i < length chs" by simp
    then show "map2 locate chs ?g ! i = zip b j ! i"
      using locate_offset[OF bi[OF i] ji[OF i]] by (simp add: lb lj block_offset_def)
  qed
  have "map fst (zip b j) = b" "map snd (zip b j) = j"
    by (simp_all add: lb lj)
  then show ?thesis
    by (simp add: gread_def chs loc)
qed

lemma gread_located:
  assumes g: "in_bounds (map sum_list chs) g" and chs: "chunks x = chs"
  shows "\<exists>b j. in_bounds (map length chs) b \<and> in_bounds (block_shape chs b) j
           \<and> g = map2 (+) (block_offset chs b) j \<and> gread x g = cell (block x b) j"
proof -
  let ?loc = "map2 locate chs g"
  let ?b = "map fst ?loc" and ?j = "map snd ?loc"
  have lg: "length g = length chs" and gi: "\<And>i. i < length chs \<Longrightarrow> g ! i < sum_list (chs ! i)"
    using g by (auto simp: in_bounds_nth)
  have b: "in_bounds (map length chs) ?b"
    using locate_bounds[OF gi] by (simp add: in_bounds_nth lg)
  have j: "in_bounds (block_shape chs ?b) ?j"
    using locate_bounds[OF gi] by (simp add: in_bounds_nth lg block_shape_def)
  have eq: "g = map2 (+) (block_offset chs ?b) ?j"
  proof (rule nth_equalityI)
    show "length g = length (map2 (+) (block_offset chs ?b) ?j)"
      by (simp add: lg block_offset_def)
  next
    fix i assume "i < length g"
    then have i: "i < length chs" by (simp add: lg)
    then show "g ! i = map2 (+) (block_offset chs ?b) ?j ! i"
      using locate_bounds[OF gi[OF i]] by (simp add: lg block_offset_def)
  qed
  have "gread x g = cell (block x ?b) ?j"
    by (simp add: gread_def chs)
  with b j eq show ?thesis by blast
qed

lemma halo_cell_core:
  assumes b: "in_bounds (map length chs) b" and j: "in_bounds (block_shape chs b) j"
    and chs: "chunks x = chs"
  shows "halo_cell x d bnd b (map (\<lambda>k. k + d) j) = cell (block x b) j"
proof -
  let ?g = "halo_global chs d b (map (\<lambda>k. k + d) j)"
  have lb: "length b = length chs" and bi: "\<And>i. i < length chs \<Longrightarrow> b ! i < length (chs ! i)"
    using b by (auto simp: in_bounds_nth)
  have lj: "length j = length chs" and ji: "\<And>i. i < length chs \<Longrightarrow> j ! i < chs ! i ! (b ! i)"
    using j lb by (auto simp: in_bounds_nth block_shape_def)
  have g: "?g = map int (map2 (+) (block_offset chs b) j)"
    by (rule nth_equalityI) (simp_all add: lb lj block_offset_def halo_coord_def halo_global_def)
  have ins: "list_all2 inside (map sum_list chs) ?g"
  proof -
    have "\<And>i. i < length chs \<Longrightarrow> int (offset (chs ! i) (b ! i)) + int (j ! i) < int (sum_list (chs ! i))"
      using offset_less_sum[OF bi ji] by (metis of_nat_add of_nat_less_iff)
    then show ?thesis
      unfolding g by (simp add: list_all2_conv_all_nth lb lj block_offset_def inside_def)
  qed
  have "map nat ?g = map2 (+) (block_offset chs b) j"
    unfolding g by (simp add: comp_def)
  with ins show ?thesis
    using gread_at[OF b j chs] by (simp add: halo_cell_def chs Let_def)
qed

lemma overlap_Returns:
  "geometry_ok (chunks x) d \<Longrightarrow>
   overlap x d bnd = Returns \<lparr>chunks = map (map (\<lambda>c. c + 2 * d)) (chunks x),
                    block = \<lambda>b. \<lparr>shape = map (\<lambda>n. n + 2 * d) (shape (block x b)),
                                  cell = halo_cell x d bnd b\<rparr>\<rparr>"
  by (simp add: overlap_def)

lemma overlap_cases:
  "overlap x d bnd = Returns y \<Longrightarrow>
     geometry_ok (chunks x) d \<and>
     y = \<lparr>chunks = map (map (\<lambda>c. c + 2 * d)) (chunks x),
          block = \<lambda>b. \<lparr>shape = map (\<lambda>n. n + 2 * d) (shape (block x b)),
                        cell = halo_cell x d bnd b\<rparr>\<rparr>"
  by (auto simp: overlap_def split: if_splits)

section \<open>The flood terminates and respects its markers\<close>

lemma set_enqueue [simp]: "set (enqueue x q) = insert x (set q)"
  by (induction q) auto

lemma length_enqueue [simp]: "length (enqueue x q) = Suc (length q)"
  by (induction q) auto

lemma finite_in_bounds [simp]: "finite {p. in_bounds shp p}"
  using set_indices[of shp, symmetric] by (metis List.finite_set)














section \<open>Blocks, partition and helper functions\<close>

subsection \<open>Blockwise application\<close>

lemma run_tasks_Returns:
  "run_tasks task bs st = Returns st' \<longleftrightarrow>
     (\<forall>b\<in>set bs. is_Returns (task b)) \<and>
     st' = (\<lambda>b. if b \<in> set bs then Some (result (task b)) else st b)"
proof (induction bs arbitrary: st)
  case Nil
  show ?case by auto
next
  case (Cons b bs)
  show ?case
  proof (cases "task b")
    case (Returns r)
    have "(\<lambda>x. if x \<in> set bs then Some (result (task x)) else (st(b \<mapsto> r)) x) =
          (\<lambda>x. if x \<in> set (b # bs) then Some (result (task x)) else st x)"
      using Returns by auto
    with Returns show ?thesis by (simp add: Cons.IH)
  qed simp_all
qed

lemma dispatch_Returns:
  "dispatch sched chs task = Returns y \<longleftrightarrow>
     (\<forall>b\<in>set sched. is_Returns (task b)) \<and>
     y = \<lparr>chunks = chs, block = \<lambda>b. the (if b \<in> set sched then Some (result (task b)) else None)\<rparr>"
  by (auto simp: dispatch_def obind_Returns run_tasks_Returns)

lemma dispatch_blocks:
  assumes "dispatch sched chs task = Returns y"
  shows "chunks y = chs" and "\<And>b. b \<in> set sched \<Longrightarrow> task b = Returns (block y b)"
  using assms by (auto simp: dispatch_Returns)

lemma dispatch_reorder:
  assumes "dispatch s1 chs task = Returns y" and "set s2 = set s1"
  shows "dispatch s2 chs task = Returns y"
  using assms by (simp add: dispatch_Returns)

lemma block_indices_map [simp]: "block_indices (map (map f) chs) = block_indices chs"
  by (simp add: block_indices_def comp_def)

lemma mem_block_indices: "b \<in> set (block_indices chs) \<longleftrightarrow> in_bounds (map length chs) b"
  by (simp add: block_indices_def set_indices)

lemma map_blocks_Returns:
  assumes "map_blocks s f x = Returns y" and "set (s (block_indices (chunks x))) = set (block_indices (chunks x))"
  shows "chunks y = chunks x"
    and "\<And>b. in_bounds (map length (chunks x)) b \<Longrightarrow> f (block x b) = Returns (block y b)"
  using assms dispatch_blocks[of "s (block_indices (chunks x))" "chunks x" "\<lambda>b. f (block x b)" y]
  by (auto simp: map_blocks_def mem_block_indices)



subsection \<open>Partition\<close>

lemma sum_list_axis_chunks: "0 < c \<Longrightarrow> sum_list (axis_chunks n c) = n"
proof -
  have "n div c * c + n mod c = n" by simp
  then show ?thesis
    by (auto simp: axis_chunks_def sum_list_replicate)
qed

lemma from_array_Returns:
  assumes "from_array a c = Returns x"
  shows "chunks x = map2 axis_chunks (shape a) c"
    and "map sum_list (chunks x) = shape a"
    and "\<And>b. shape (block x b) = block_shape (chunks x) b"
    and "\<And>b j. cell (block x b) j = cell a (map2 (+) (block_offset (chunks x) b) j)"
proof -
  from assms have l: "length c = length (shape a)" and z: "0 \<notin> set c"
    and x: "x = \<lparr>chunks = map2 axis_chunks (shape a) c,
           block = \<lambda>b. \<lparr>shape = block_shape (map2 axis_chunks (shape a) c) b,
                  cell = \<lambda>j. cell a (map2 (+) (block_offset (map2 axis_chunks (shape a) c) b) j)\<rparr>\<rparr>"
    by (auto simp: from_array_def Let_def split: if_splits)
  show "chunks x = map2 axis_chunks (shape a) c" by (simp add: x)
  show "map sum_list (chunks x) = shape a"
  proof (rule nth_equalityI)
    show "length (map sum_list (chunks x)) = length (shape a)" by (simp add: x l)
  next
    fix i assume "i < length (map sum_list (chunks x))"
    then have i: "i < length (shape a)" "i < length c" by (simp_all add: x l)
    then have "0 < c ! i" using z by (metis nth_mem not_gr_zero)
    then show "map sum_list (chunks x) ! i = shape a ! i"
      using i by (simp add: x sum_list_axis_chunks)
  qed
  show "\<And>b. shape (block x b) = block_shape (chunks x) b" by (simp add: x)
  show "\<And>b j. cell (block x b) j = cell a (map2 (+) (block_offset (chunks x) b) j)" by (simp add: x)
qed

lemma gread_from_array:
  assumes "from_array a c = Returns x" and "in_bounds (shape a) g"
  shows "gread x g = cell a g"
proof -
  from gread_located[of "chunks x" g x] assms(2) from_array_Returns(2)[OF assms(1)]
  obtain b j where "g = map2 (+) (block_offset (chunks x) b) j" "gread x g = cell (block x b) j"
    by auto
  then show ?thesis
    using from_array_Returns(4)[OF assms(1)] by simp
qed

subsection \<open>The helper functions\<close>

lemma overlap_axis_Returns:
  assumes "overlap_axis d src a ov = Returns ov1"
  shows "shape ov1 = shape ov"
    and "cell ov1 = (\<lambda>idx. if idx ! a \<in> set (py_head (shape ov ! a) d @ py_tail (shape ov ! a) d)
                           then src idx else cell ov idx)"
    and "length (py_head (shape ov ! a) d) = length (py_tail (shape ov ! a) d)"
  using assms by (auto simp: overlap_axis_def Let_def split: if_splits)

lemma overlap_loop_shape:
  "overlap_loop d src is ov = Returns ov' \<Longrightarrow> shape ov' = shape ov"
proof (induction "is" arbitrary: ov)
  case Nil
  then show ?case by simp
next
  case (Cons a "is")
  then obtain ov1 where a: "overlap_axis d src a ov = Returns ov1"
    and r: "overlap_loop d src is ov1 = Returns ov'"
    by (auto simp: obind_Returns)
  from Cons.IH[OF r] overlap_axis_Returns(1)[OF a] show ?case by simp
qed

lemma overlap_loop_cell:
  "overlap_loop d src is ov = Returns ov' \<Longrightarrow>
   cell ov' p =
     (if \<exists>i\<in>set is. p ! i \<in> set (py_head (shape ov ! i) d @ py_tail (shape ov ! i) d)
      then src p else cell ov p)"
proof (induction "is" arbitrary: ov)
  case Nil
  then show ?case by simp
next
  case (Cons a "is")
  then obtain ov1 where a: "overlap_axis d src a ov = Returns ov1"
    and r: "overlap_loop d src is ov1 = Returns ov'"
    by (auto simp: obind_Returns)
  show ?case
    unfolding Cons.IH[OF r] overlap_axis_Returns(1,2)[OF a] by auto
qed

lemma overlap_loop_lengths:
  "overlap_loop d src is ov = Returns ov' \<Longrightarrow> i \<in> set is \<Longrightarrow>
   length (py_head (shape ov ! i) d) = length (py_tail (shape ov ! i) d)"
proof (induction "is" arbitrary: ov)
  case Nil
  then show ?case by simp
next
  case (Cons a "is")
  then obtain ov1 where a: "overlap_axis d src a ov = Returns ov1"
    and r: "overlap_loop d src is ov1 = Returns ov'"
    by (auto simp: obind_Returns)
  from Cons.prems(2) Cons.IH[OF r] overlap_axis_Returns(1,3)[OF a] show ?case by auto
qed

lemma overlap_loop_succeeds:
  "0 < d \<Longrightarrow> \<exists>ov'. overlap_loop d src is ov = Returns ov'"
proof (induction "is" arbitrary: ov)
  case Nil
  then show ?case by simp
next
  case (Cons a "is")
  have "length (py_head (shape ov ! a) d) = length (py_tail (shape ov ! a) d)"
    using Cons.prems by (auto simp: py_head_def py_tail_def)
  then obtain ov1 where "overlap_axis d src a ov = Returns ov1"
    by (simp add: overlap_axis_def Let_def)
  with Cons.IH[OF Cons.prems, of ov1] show ?case by simp
qed

lemma py_edge:
  assumes "0 < d" and "k < n"
  shows "k \<in> set (py_head n d @ py_tail n d) \<longleftrightarrow> k < d \<or> n - d \<le> k"
proof -
  have "take d [0..<n] = [0..<min d n]"
    by (cases "d \<le> n") (simp_all add: min_def)
  then show ?thesis
    using assms by (auto simp: py_head_def py_tail_def)
qed

lemma ring_selected:
  assumes "0 < d" and "in_bounds shp p"
  shows "(\<exists>i\<in>set [0..<length shp]. p ! i \<in> set (py_head (shp ! i) d @ py_tail (shp ! i) d))
           \<longleftrightarrow> in_ring shp d p"
proof -
  have "\<And>i. i < length shp \<Longrightarrow>
          p ! i \<in> set (py_head (shp ! i) d @ py_tail (shp ! i) d) \<longleftrightarrow>
          p ! i < d \<or> shp ! i - d \<le> p ! i"
    using assms by (intro py_edge) (auto simp: in_bounds_nth)
  then show ?thesis
    unfolding in_ring_def by (metis atLeast0LessThan lessThan_iff set_upt)
qed


lemma mask_overlap_Returns:
  assumes "mask_overlap chunk d l = Returns g"
  shows "shape g = shape chunk"
    and "\<And>p. 0 < d \<Longrightarrow> in_bounds (shape chunk) p \<Longrightarrow>
            cell g p = (if in_ring (shape chunk) d p then l else 0)"
    and "\<And>p. cell g p = l \<or> cell g p = 0"
proof -
  note g = assms[unfolded mask_overlap_def]
  show "shape g = shape chunk"
    using overlap_loop_shape[OF g] by (simp add: zeros_like_def)
  show "\<And>p. 0 < d \<Longrightarrow> in_bounds (shape chunk) p \<Longrightarrow>
            cell g p = (if in_ring (shape chunk) d p then l else 0)"
    using overlap_loop_cell[OF g] ring_selected[of d "shape chunk"]
    by (simp add: zeros_like_def)
  show "\<And>p. cell g p = l \<or> cell g p = 0"
    using overlap_loop_cell[OF g] by (simp add: zeros_like_def)
qed

lemma put_positive_Returns:
  assumes "put_positive markers lab = Returns mk"
  shows "shape mk = shape markers" and "shape lab = shape markers"
    and "\<And>p. cell mk p = (if cell lab p > 0 then cell lab p else cell markers p)"
  using assms by (auto simp: put_positive_def split: if_splits)


lemma build_full_markers_v2_Returns:
  assumes "build_full_markers_v2 lab d l = Returns mk"
  shows "shape mk = shape lab"
    and "\<And>p. 0 < d \<Longrightarrow> in_bounds (shape lab) p \<Longrightarrow>
           cell mk p = (if cell lab p > 0 then cell lab p
                        else if in_ring (shape lab) d p then l else 0)"
    and "\<And>p. cell lab p > 0 \<Longrightarrow> cell mk p = cell lab p"
    and "\<And>p. cell mk p = cell lab p \<or> cell mk p = l \<or> cell mk p = 0"
proof -
  from assms obtain g where g: "mask_overlap lab d l = Returns g"
    and p: "put_positive g lab = Returns mk"
    by (auto simp: build_full_markers_v2_def obind_Returns)
  note G = mask_overlap_Returns[OF g] and P = put_positive_Returns[OF p]
  show "shape mk = shape lab"
    using G(1) P(1,2) by simp
  show "\<And>p. 0 < d \<Longrightarrow> in_bounds (shape lab) p \<Longrightarrow>
           cell mk p = (if cell lab p > 0 then cell lab p
                        else if in_ring (shape lab) d p then l else 0)"
    using G(2) P(3) by simp
  show "\<And>p. cell lab p > 0 \<Longrightarrow> cell mk p = cell lab p"
    using P(3) by simp
  show "\<And>p. cell mk p = cell lab p \<or> cell mk p = l \<or> cell mk p = 0"
    using G(3) P(3) by metis
qed


subsection \<open>Halo cells\<close>

lemma block_extent_pos:
  assumes b: "in_bounds (map length chs) b"
    and q: "in_bounds (map (\<lambda>n. n + 2 * d) (block_shape chs b)) q"
    and geom: "geometry_ok chs d" and i: "i < length chs"
  shows "0 < sum_list (chs ! i)"
proof -
  have lb: "length b = length chs" and bi: "b ! i < length (chs ! i)"
    using b i by (auto simp: in_bounds_nth)
  have "q ! i < chs ! i ! (b ! i) + 2 * d"
    using q i lb by (auto simp: in_bounds_nth block_shape_def)
  moreover have "2 * d \<le> chs ! i ! (b ! i)"
    using geom i bi unfolding geometry_ok_def by (meson nth_mem)
  ultimately have "0 < chs ! i ! (b ! i)" by linarith
  moreover have "chs ! i ! (b ! i) \<le> sum_list (chs ! i)"
    using bi by (simp add: member_le_sum_list)
  ultimately show ?thesis by linarith
qed

lemma nearest_global_in_bounds:
  assumes b: "in_bounds (map length chs) b"
    and q: "in_bounds (map (\<lambda>n. n + 2 * d) (block_shape chs b)) q"
    and geom: "geometry_ok chs d"
  shows "in_bounds (map sum_list chs) (nearest_global chs d b q)"
proof -
  have lb: "length b = length chs" using b by (auto simp: in_bounds_nth)
  have lq: "length q = length chs" using q lb by (auto simp: in_bounds_nth block_shape_def)
  have "clamp n g < n" if "0 < n" for n g
    using that by (auto simp: clamp_def)
  then show ?thesis
    using block_extent_pos[OF b q geom]
    by (simp add: in_bounds_nth nearest_global_def halo_global_def lb lq)
qed

lemma inside_nearest:
  assumes "list_all2 inside (map sum_list chs) (halo_global chs d b q)"
  shows "nearest_global chs d b q = map nat (halo_global chs d b q)"
proof -
  have "clamp n g = nat g" if "inside n g" for n g
    using that by (auto simp: clamp_def inside_def)
  with assms show ?thesis
    unfolding nearest_global_def
    by (intro nth_equalityI) (auto simp: list_all2_conv_all_nth)
qed

lemma halo_cell_Nearest:
  "halo_cell x d Nearest b q = gread x (nearest_global (chunks x) d b q)"
  by (simp add: halo_cell_def Let_def inside_nearest)

lemma halo_cell_Constant:
  "halo_cell x d (Constant v) b q =
     (if list_all2 inside (map sum_list (chunks x)) (halo_global (chunks x) d b q)
      then gread x (nearest_global (chunks x) d b q) else v)"
  by (simp add: halo_cell_def Let_def inside_nearest)

lemma overlap_blocks:
  assumes "overlap x d bnd = Returns y"
  shows "geometry_ok (chunks x) d" and "chunks y = map (map (\<lambda>c. c + 2 * d)) (chunks x)"
    and "\<And>b. shape (block y b) = map (\<lambda>n. n + 2 * d) (shape (block x b))"
    and "\<And>b. cell (block y b) = halo_cell x d bnd b"
  using overlap_cases[OF assms] by simp_all





subsection \<open>The stages of the direct-sharing pipeline\<close>

lemma fair_set: "fair s \<Longrightarrow> set (s k bs) = set bs"
  by (simp add: fair_def)

lemma fair_in_order: "fair in_order"
  by (simp add: fair_def in_order_def)

lemma exchange_stage:
  assumes "obind (from_array a c) (\<lambda>x. overlap x d bnd) = Returns y"
  obtains x where "from_array a c = Returns x" "overlap x d bnd = Returns y"
    "chunks x = map2 axis_chunks (shape a) c" "map sum_list (chunks x) = shape a"
    "geometry_ok (chunks x) d" "chunks y = map (map (\<lambda>c. c + 2 * d)) (chunks x)"
    "\<And>b. shape (block y b) = map (\<lambda>n. n + 2 * d) (block_shape (chunks x) b)"
    "\<And>b. cell (block y b) = halo_cell x d bnd b"
proof -
  from assms obtain x where x: "from_array a c = Returns x" and y: "overlap x d bnd = Returns y"
    by (auto simp: obind_Returns)
  note F = from_array_Returns[OF x] and O = overlap_blocks[OF y]
  show thesis
    by (rule that[OF x y F(1) F(2) O(1) O(2) _ O(4)]) (simp add: O(3) F(3))
qed





lemma halo_from_array_value:
  assumes x: "from_array a c = Returns x" and b: "in_bounds (map length (chunks x)) b"
    and q: "in_bounds (map (\<lambda>n. n + 2 * d) (block_shape (chunks x) b)) q"
    and geom: "geometry_ok (chunks x) d"
  shows "in_bounds (shape a) (nearest_global (chunks x) d b q)"
    and "halo_cell x d Nearest b q = cell a (nearest_global (chunks x) d b q)"
proof -
  show n: "in_bounds (shape a) (nearest_global (chunks x) d b q)"
    using nearest_global_in_bounds[OF b q geom] from_array_Returns(2)[OF x] by simp
  show "halo_cell x d Nearest b q = cell a (nearest_global (chunks x) d b q)"
    using gread_from_array[OF x n] by (simp add: halo_cell_Nearest)
qed




subsection \<open>The stages of the boundary-basin pipeline\<close>


lemma halo_from_array_Constant:
  assumes x: "from_array a c = Returns x" and b: "in_bounds (map length (chunks x)) b"
    and q: "in_bounds (map (\<lambda>n. n + 2 * d) (block_shape (chunks x) b)) q"
    and geom: "geometry_ok (chunks x) d"
  shows "halo_cell x d (Constant v) b q =
           (if list_all2 inside (shape a) (halo_global (chunks x) d b q)
            then cell a (nearest_global (chunks x) d b q) else v)"
  using halo_from_array_value[OF x b q geom] from_array_Returns(2)[OF x]
  by (simp add: halo_cell_Constant halo_cell_Nearest)






section \<open>Trim after exchange\<close>

text \<open>
  C5.  Trimming the halo of depth \<open>d\<close> right after exchanging a halo of depth \<open>d\<close>
  gives back the chunked array: the exchange succeeds under the geometry invariant, the
  chunk extents and every block shape are the original ones, and every core cell holds
  its original value, whatever the boundary policy.
\<close>

theorem trim_after_exchange:
  assumes "wf_darray x" and "geometry_ok (chunks x) d"
  shows "\<exists>y. overlap x d bnd = Returns y \<and> chunks (trim_overlap y d) = chunks x \<and>
           (\<forall>b\<in>set (block_indices (chunks x)).
              shape (block (trim_overlap y d) b) = shape (block x b) \<and>
              (\<forall>j. in_bounds (shape (block x b)) j \<longrightarrow>
                     cell (block (trim_overlap y d) b) j = cell (block x b) j))"
proof -
  let ?y = "\<lparr>chunks = map (map (\<lambda>c. c + 2 * d)) (chunks x),
             block = \<lambda>b. \<lparr>shape = map (\<lambda>n. n + 2 * d) (shape (block x b)),
                           cell = halo_cell x d bnd b\<rparr>\<rparr>"
  have y: "overlap x d bnd = Returns ?y"
    using assms(2) by (rule overlap_Returns)
  have ch: "chunks (trim_overlap ?y d) = chunks x"
    by (simp add: trim_overlap_def comp_def)
  have blk: "shape (block (trim_overlap ?y d) b) = shape (block x b) \<and>
             (\<forall>j. in_bounds (shape (block x b)) j \<longrightarrow>
                    cell (block (trim_overlap ?y d) b) j = cell (block x b) j)"
    if b: "b \<in> set (block_indices (chunks x))" for b
  proof -
    have vb: "in_bounds (map length (chunks x)) b"
      using b by (simp add: block_indices_def set_indices)
    have sh: "shape (block x b) = block_shape (chunks x) b"
      using assms(1) b by (simp add: wf_darray_def)
    have "cell (block (trim_overlap ?y d) b) j = cell (block x b) j"
      if "in_bounds (shape (block x b)) j" for j
      using halo_cell_core[OF vb _ refl, of j d bnd] that
      by (simp add: trim_overlap_def sh)
    then show ?thesis
      by (simp add: trim_overlap_def comp_def)
  qed
  from y ch blk show ?thesis by blast
qed

theorem trim_after_exchange_witness:
  "cell (block (trim_overlap (result (overlap (result (from_array seeds_a [2, 2])) 1 (Constant 9))) 1) [0, 1]) [0, 1] = 3"
proof -
  let ?x = "result (from_array seeds_a [2, 2])"
  have wf: "wf_darray ?x" by code_simp
  have geom: "geometry_ok (chunks ?x) 1" by code_simp
  have b: "[0, 1] \<in> set (block_indices (chunks ?x))" by code_simp
  have j: "in_bounds (shape (block ?x [0, 1])) [0, 1]" by code_simp
  have v: "cell (block ?x [0, 1]) [0, 1] = 3" by code_simp
  from trim_after_exchange[OF wf geom, of "Constant 9"]
  obtain y where y: "overlap ?x 1 (Constant 9) = Returns y"
    and c: "\<forall>b\<in>set (block_indices (chunks ?x)).
              shape (block (trim_overlap y 1) b) = shape (block ?x b) \<and>
              (\<forall>j. in_bounds (shape (block ?x b)) j \<longrightarrow>
                     cell (block (trim_overlap y 1) b) j = cell (block ?x b) j)"
    by blast
  from c b j have "cell (block (trim_overlap y 1) [0, 1]) [0, 1] = cell (block ?x [0, 1]) [0, 1]"
    by blast
  with y v show ?thesis by simp
qed

section \<open>Labels across a chunk boundary\<close>




section \<open>The sentinel never leaks\<close>



section \<open>Seed precedence\<close>



section \<open>One chunk against the plain watershed\<close>




section \<open>Determinism\<close>

subsection \<open>Reordering the tasks of a stage\<close>











section \<open>First-pass markers of the boundary-basin pipeline\<close>

text \<open>What the first-pass marker image of the boundary-basin pipeline is made of.\<close>

lemma ws_markers_op_v2_stages:
  assumes mo: "ws_markers_op_v2 s M c d = Returns mo" and fair: "fair s"
  obtains chs and mda ex :: "nat darray" where
    "chs = map2 axis_chunks (shape M) c" "geometry_ok chs d"
    "from_array M c = Returns mda" "chunks mda = chs"
    "chunks mo = map (map (\<lambda>c. c + 2 * d)) chs"
    "\<And>b. shape (block ex b) = map (\<lambda>n. n + 2 * d) (block_shape chs b)"
    "\<And>b. cell (block ex b) = halo_cell mda d (Constant (boundary_label M)) b"
    "\<And>b. in_bounds (map length chs) b \<Longrightarrow>
           build_full_markers_v2 (block ex b) d (boundary_label M) = Returns (block mo b)"
proof -
  let ?S = "boundary_label M"
  from mo obtain ex where ex: "obind (from_array M c) (\<lambda>x. overlap x d (Constant ?S)) = Returns ex"
    and mob: "map_blocks (s 0) (\<lambda>x. build_full_markers_v2 x d ?S) ex = Returns mo"
    by (auto simp: ws_markers_op_v2_def obind_Returns)
  from ex obtain mda where Mx: "from_array M c = Returns mda"
    "chunks mda = map2 axis_chunks (shape M) c"
    "geometry_ok (chunks mda) d" "chunks ex = map (map (\<lambda>c. c + 2 * d)) (chunks mda)"
    "\<And>b. shape (block ex b) = map (\<lambda>n. n + 2 * d) (block_shape (chunks mda) b)"
    "\<And>b. cell (block ex b) = halo_cell mda d (Constant ?S) b"
    by (rule exchange_stage) blast
  note MO = map_blocks_Returns[OF mob fair_set[OF fair]]
  show thesis
  proof (rule that[where chs="chunks mda" and mda=mda and ex=ex])
    show "chunks mda = map2 axis_chunks (shape M) c" by (rule Mx(2))
    show "geometry_ok (chunks mda) d" by (rule Mx(3))
    show "from_array M c = Returns mda" by (rule Mx(1))
    show "chunks mda = chunks mda" by simp
    show "chunks mo = map (map (\<lambda>c. c + 2 * d)) (chunks mda)" using MO(1) Mx(4) by simp
    show "\<And>b. shape (block ex b) = map (\<lambda>n. n + 2 * d) (block_shape (chunks mda) b)" by (rule Mx(5))
    show "\<And>b. cell (block ex b) = halo_cell mda d (Constant ?S) b" by (rule Mx(6))
    show "\<And>b. in_bounds (map length (chunks mda)) b \<Longrightarrow>
           build_full_markers_v2 (block ex b) d ?S = Returns (block mo b)"
      using MO(2) Mx(4) by (simp add: comp_def)
  qed
qed

text \<open>
  C7, as the code has it.  In the first-pass marker image of the boundary-basin pipeline a
  cell of a padded chunk carries the exchanged marker when that is nonzero: the chunk's
  own seed in the core, the adjacent chunk's seed in the halo, and the sentinel fill
  beyond a domain edge.  Where the exchanged marker is zero, a cell of the halo ring
  carries the sentinel and a core cell carries \<open>0\<close>.
\<close>

theorem first_pass_markers_v2:
  assumes "ws_markers_op_v2 s M c d = Returns mo" and "fair s" and "0 < d"
    and "in_bounds (map length (chunks mo)) b" and "in_bounds (shape (block mo b)) p"
  shows "cell (block mo b) p =
           (let G = halo_global (map2 axis_chunks (shape M) c) d b p;
                e = (if list_all2 inside (shape M) G then cell M (map nat G)
                     else boundary_label M)
            in if e \<noteq> 0 then e
               else if in_ring (shape (block mo b)) d p then boundary_label M else 0)"
proof -
  let ?S = "boundary_label M"
  obtain chs and mda ex :: "nat darray" where
    S: "chs = map2 axis_chunks (shape M) c" "geometry_ok chs d"
    "from_array M c = Returns mda" "chunks mda = chs"
    "chunks mo = map (map (\<lambda>c. c + 2 * d)) chs"
    "\<And>b. shape (block ex b) = map (\<lambda>n. n + 2 * d) (block_shape chs b)"
    "\<And>b. cell (block ex b) = halo_cell mda d (Constant (boundary_label M)) b"
    "\<And>b. in_bounds (map length chs) b \<Longrightarrow>
           build_full_markers_v2 (block ex b) d (boundary_label M) = Returns (block mo b)"
    by (rule ws_markers_op_v2_stages[OF assms(1,2)]) (rule that)
  have b: "in_bounds (map length chs) b"
    using assms(4) by (simp add: S(5) comp_def)
  note B = build_full_markers_v2_Returns[OF S(8)[OF b]]
  have p: "in_bounds (map (\<lambda>n. n + 2 * d) (block_shape chs b)) p"
    using assms(5) by (simp add: B(1) S(6))
  let ?G = "halo_global chs d b p"
  have ex: "cell (block ex b) p = (if list_all2 inside (shape M) ?G then cell M (map nat ?G) else ?S)"
    using halo_from_array_Constant[OF S(3), of b d p ?S] b p S(2)
      inside_nearest[of chs d b p] from_array_Returns(2)[OF S(3)]
    by (auto simp: S(4) S(7))
  show ?thesis
    using B(2)[OF assms(3), of p] p
    by (simp add: B(1) S(6) ex Let_def S(1))
qed

theorem first_pass_markers_v2_witness:
  "cell (block (result (ws_markers_op_v2 in_order seeds_b [2, 2] 1)) [0, 1]) [0, 0] = 6"
proof -
  let ?mo = "ws_markers_op_v2 in_order seeds_b [2, 2] 1"
  have "is_Returns ?mo" by code_simp
  then have mo: "?mo = Returns (result ?mo)" by simp
  have b: "in_bounds (map length (chunks (result ?mo))) [0, 1]" by code_simp
  have p: "in_bounds (shape (block (result ?mo) [0, 1])) [0, 0]" by code_simp
  have v: "(let G = halo_global (map2 axis_chunks (shape seeds_b) [2, 2]) 1 [0, 1] [0, 0];
                e = (if list_all2 inside (shape seeds_b) G then cell seeds_b (map nat G)
                     else boundary_label seeds_b)
            in if e \<noteq> 0 then e
               else if in_ring (shape (block (result ?mo) [0, 1])) 1 [0, 0]
                    then boundary_label seeds_b else 0) = 6"
    by code_simp
  from first_pass_markers_v2[OF mo fair_in_order _ b p] v show ?thesis
    by simp
qed

text \<open>
  C7 as stated fails where the adjacent chunk has a seed on its edge: the halo
  cell \<open>[1, 3]\<close> of the padded chunk \<open>[0, 0]\<close> stands for the domain cell \<open>[0, 2]\<close>,
  seeded \<open>5\<close> in the adjacent chunk, and carries \<open>5\<close>, not the sentinel \<open>6\<close>.
\<close>

theorem first_pass_markers_v2_counterexample:
  "is_Returns (ws_markers_op_v2 in_order seeds_b [2, 2] 1) \<and>
   boundary_label seeds_b = 6 \<and>
   in_ring (shape (block (result (ws_markers_op_v2 in_order seeds_b [2, 2] 1)) [0, 0])) 1 [1, 3] \<and>
   cell (block (result (ws_markers_op_v2 in_order seeds_b [2, 2] 1)) [0, 0]) [1, 3] = 5"
  by code_simp

section \<open>Merged markers of the direct-sharing pipeline\<close>




section \<open>A chunk without seeds\<close>





section \<open>The helpers leave their arguments alone\<close>







end
